theory Spec2Isabelle
  imports Main "HOL-Library.Word" "HOL-Library.Signed_Division"
begin

unbundle bit_operations_syntax

section \<open>Data model of package managers\<close>

text \<open>
  \<^verbatim>\<open>type UpdateState uint32\<close> with its three constants (updatestate.go, the first
  file of \<^verbatim>\<open>src/unnamed/part_002\<close>).
\<close>

datatype UpdateState =
    UpdateStateUnknown
  | UpdateStateFoundUpdate
  | UpdateStateUpdatesDisabledUnofficialBuild

text \<open>
  A Go \<^verbatim>\<open>error\<close> value. The only error the service itself creates is
  \<^verbatim>\<open>windows.ERROR_ACCESS_DENIED\<close>; every other error (of the update checker, of a
  download) is carried by its message.
\<close>

datatype error = ERROR_ACCESS_DENIED | OtherError string

text \<open>
  \<^verbatim>\<open>windows.Token\<close> is a machine word; \<^verbatim>\<open>*os.File\<close> and \<^verbatim>\<open>*ManagerService\<close>
  are pointers, modelled as addresses. A nil \<^verbatim>\<open>*os.File\<close> is \<open>None\<close>.
\<close>

type_synonym Token = "64 word"
type_synonym osFile = nat
type_synonym sref = nat

text \<open>
  \<^verbatim>\<open>type ManagerService struct { events *os.File; eventLock sync.Mutex;
  elevatedToken windows.Token }\<close>. The mutex has no value of its own in a model whose
  operations run one at a time.
\<close>

record ManagerService =
  events :: "osFile option"
  elevatedToken :: Token

text \<open>
  The package-level variables: \<^verbatim>\<open>managerServices\<close> (a
  \<^verbatim>\<open>map[*ManagerService]bool\<close>), \<^verbatim>\<open>haveQuit\<close>, \<^verbatim>\<open>quitManagersChan\<close> (a
  channel of capacity 1, modelled by the number of values it buffers) and
  \<^verbatim>\<open>updateState\<close>, together with the store of the \<^verbatim>\<open>ManagerService\<close> objects
  the pointers refer to, and the list of the downloads started by \<^verbatim>\<open>Update\<close> (the
  tokens handed to \<^verbatim>\<open>updater.DownloadVerifyAndExecute\<close>).
\<close>

record mstate =
  store :: "sref \<Rightarrow> ManagerService"
  managerServices :: "sref \<rightharpoonup> bool"
  haveQuit :: "32 word"
  quitManagersChan :: nat
  updateState :: UpdateState
  downloads :: "Token list"

section \<open>Quit\<close>

text \<open>
  \<^verbatim>\<open>atomic.CompareAndSwapUint32(&haveQuit, 0, 1)\<close>: the flag becomes 1 and the call
  reports success when it was 0; otherwise nothing changes.
\<close>

definition CompareAndSwap_haveQuit :: "mstate \<Rightarrow> bool \<times> mstate" where
  "CompareAndSwap_haveQuit st =
     (if haveQuit st = 0 then (True, st\<lparr>haveQuit := 1\<rparr>) else (False, st))"

text \<open>
  Lines 119-124 of \<^verbatim>\<open>Quit\<close> (and 206-211 of \<^verbatim>\<open>IPCServerListen\<close>): under both
  locks, \<^verbatim>\<open>s.events = nil\<close> and \<^verbatim>\<open>delete(managerServices, s)\<close>.
\<close>

definition unregister :: "sref \<Rightarrow> mstate \<Rightarrow> mstate" where
  "unregister s st =
     st\<lparr>store := (store st)(s := (store st s)\<lparr>events := None\<rparr>),
        managerServices := (managerServices st)(s := None)\<rparr>"

text \<open>
  \<^verbatim>\<open>quitManagersChan <- struct{}{}\<close> on a channel of capacity 1: the send returns
  when the buffer has room and otherwise blocks (\<open>None\<close>: with no receiver in the model
  the call does not return).
\<close>

definition send_quitManagersChan :: "mstate \<Rightarrow> mstate option" where
  "send_quitManagersChan st =
     (if quitManagersChan st < 1 then Some (st\<lparr>quitManagersChan := quitManagersChan st + 1\<rparr>)
      else None)"

text \<open>
  \<^verbatim>\<open>func (s *ManagerService) Quit(stopTunnelsOnQuit bool) (alreadyQuit bool, err error)\<close>.
  The result is \<open>None\<close> when the call blocks on the channel, and otherwise the pair
  returned with the state it leaves. The branch on \<^verbatim>\<open>stopTunnelsOnQuit\<close> only writes
  a log line.
\<close>

definition Quit :: "sref \<Rightarrow> bool \<Rightarrow> mstate \<Rightarrow> ((bool \<times> error option) \<times> mstate) option" where
  "Quit s stopTunnelsOnQuit st =
     (if elevatedToken (store st s) = 0 then Some ((False, Some ERROR_ACCESS_DENIED), st)
      else
        (case CompareAndSwap_haveQuit st of
           (False, st1) \<Rightarrow> Some ((True, None), st1)
         | (True, st1) \<Rightarrow>
             (case send_quitManagersChan (unregister s st1) of
                None \<Rightarrow> None
              | Some st2 \<Rightarrow> Some ((False, None), st2))))"

text \<open>
  Calls of \<^verbatim>\<open>Quit\<close> made one after the other, each by a session \<open>s\<close> with its
  argument: the results in the order of the calls, and the state the last call leaves.
  \<open>None\<close> when a call blocks.
\<close>

fun Quit_calls ::
  "(sref \<times> bool) list \<Rightarrow> mstate \<Rightarrow> ((bool \<times> error option) list \<times> mstate) option" where
  "Quit_calls [] st = Some ([], st)"
| "Quit_calls (c # cs) st =
     (case Quit (fst c) (snd c) st of
        None \<Rightarrow> None
      | Some (res, st1) \<Rightarrow>
          (case Quit_calls cs st1 of
             None \<Rightarrow> None
           | Some (ress, st2) \<Rightarrow> Some (res # ress, st2)))"

section \<open>The wire: gob values, decoder and encoder\<close>

text \<open>
  Modelled from the spec: the declarations of \<^verbatim>\<open>MethodType\<close> and
  \<^verbatim>\<open>NotificationType\<close> and of their constants are in a file of package managers that
  is not under src/. The spec's MethodCall has the three request kinds
  \<^verbatim>\<open>Quit\<close>, \<^verbatim>\<open>QueryUpdateState\<close>, \<^verbatim>\<open>TriggerUpdate\<close>, which the dispatch loop
  names \<^verbatim>\<open>QuitMethodType\<close>, \<^verbatim>\<open>UpdateStateMethodType\<close>, \<^verbatim>\<open>UpdateMethodType\<close>;
  every other value of the integer type is \<open>OtherMethodType\<close>. The notification
  tags are the three that \<^verbatim>\<open>src/unnamed/part_002\<close> broadcasts.
\<close>

datatype MethodType =
    QuitMethodType
  | UpdateStateMethodType
  | UpdateMethodType
  | OtherMethodType nat

datatype NotificationType =
    UpdateFoundNotificationType
  | UpdateProgressNotificationType
  | ManagerStoppingNotificationType

text \<open>
  A value as gob carries it on a stream. \<open>GNil\<close> is a nil interface value, which
  \<^verbatim>\<open>Encoder.Encode\<close> refuses with an error.
\<close>

datatype gobval =
    GMethodType MethodType
  | GNotificationType NotificationType
  | GBool bool
  | GString string
  | GUint64 "64 word"
  | GUpdateState UpdateState
  | GNil

text \<open>
  \<^verbatim>\<open>decoder.Decode(&methodType)\<close> and \<^verbatim>\<open>decoder.Decode(&stopTunnelsOnQuit)\<close>: the
  next value of the stream when it has the type asked for, and an error (\<open>None\<close>) at
  the end of the stream or on a value of another type.
\<close>

fun Decode_MethodType :: "gobval list \<Rightarrow> (MethodType \<times> gobval list) option" where
  "Decode_MethodType (GMethodType m # rest) = Some (m, rest)"
| "Decode_MethodType _ = None"

fun Decode_bool :: "gobval list \<Rightarrow> (bool \<times> gobval list) option" where
  "Decode_bool (GBool b # rest) = Some (b, rest)"
| "Decode_bool _ = None"

text \<open>
  The \<^verbatim>\<open>io.Writer\<close> of a connection: what has been written, and a script of the
  outcomes of the writes to come (\<open>True\<close>: the write succeeds; an empty script: every
  further write succeeds).
\<close>

record writer =
  sent :: "gobval list"
  script :: "bool list"

text \<open>\<^verbatim>\<open>encoder.Encode(v)\<close> on a connection: \<open>None\<close> is the error return.\<close>

definition Encode :: "gobval \<Rightarrow> writer \<Rightarrow> writer option" where
  "Encode v w =
     (if v = GNil then None
      else
        (case script w of
           [] \<Rightarrow> Some (w\<lparr>sent := sent w @ [v]\<rparr>)
         | ok # rest \<Rightarrow>
             (if ok then Some (w\<lparr>sent := sent w @ [v], script := rest\<rparr>) else None)))"

text \<open>
  \<^verbatim>\<open>errToString\<close>. The text of \<^verbatim>\<open>windows.ERROR_ACCESS_DENIED\<close> is the message the
  operating system has for it, a parameter here.
\<close>

definition Error_text :: "string \<Rightarrow> error \<Rightarrow> string" where
  "Error_text denied e = (case e of ERROR_ACCESS_DENIED \<Rightarrow> denied | OtherError m \<Rightarrow> m)"

definition errToString :: "string \<Rightarrow> error option \<Rightarrow> string" where
  "errToString denied err = (case err of None \<Rightarrow> [] | Some e \<Rightarrow> Error_text denied e)"

section \<open>UpdateState, Update and the dispatch loop\<close>

text \<open>\<^verbatim>\<open>func (s *ManagerService) UpdateState() UpdateState\<close>.\<close>

definition UpdateState_method :: "sref \<Rightarrow> mstate \<Rightarrow> UpdateState" where
  "UpdateState_method s st = updateState st"

text \<open>
  \<^verbatim>\<open>func (s *ManagerService) Update()\<close>: nothing for a zero token; otherwise the
  download is started with the session's token (its progress is relayed by
  \<open>relayProgress\<close> below).
\<close>

definition Update :: "sref \<Rightarrow> mstate \<Rightarrow> mstate" where
  "Update s st =
     (if elevatedToken (store st s) = 0 then st
      else st\<lparr>downloads := downloads st @ [elevatedToken (store st s)]\<rparr>)"

text \<open>
  One iteration of the \<^verbatim>\<open>for\<close> loop of \<^verbatim>\<open>ServeConn\<close>: \<open>Next\<close> when the loop goes
  on to read the next request, \<open>Exit\<close> when \<^verbatim>\<open>ServeConn\<close> returns, \<open>Blocked\<close> when
  \<^verbatim>\<open>Quit\<close> does not return.
\<close>

datatype iteration =
    Next "gobval list" writer mstate
  | Exit writer mstate
  | Blocked

definition ServeConn_iteration ::
  "string \<Rightarrow> sref \<Rightarrow> gobval list \<Rightarrow> writer \<Rightarrow> mstate \<Rightarrow> iteration" where
  "ServeConn_iteration denied s reader w st =
     (case Decode_MethodType reader of
        None \<Rightarrow> Exit w st
      | Some (methodType, reader1) \<Rightarrow>
          (case methodType of
             QuitMethodType \<Rightarrow>
               (case Decode_bool reader1 of
                  None \<Rightarrow> Exit w st
                | Some (stopTunnelsOnQuit, reader2) \<Rightarrow>
                    (case Quit s stopTunnelsOnQuit st of
                       None \<Rightarrow> Blocked
                     | Some ((alreadyQuit, retErr), st1) \<Rightarrow>
                         (case Encode (GBool alreadyQuit) w of
                            None \<Rightarrow> Exit w st1
                          | Some w1 \<Rightarrow>
                              (case Encode (GString (errToString denied retErr)) w1 of
                                 None \<Rightarrow> Exit w1 st1
                               | Some w2 \<Rightarrow> Next reader2 w2 st1))))
           | UpdateStateMethodType \<Rightarrow>
               (case Encode (GUpdateState (UpdateState_method s st)) w of
                  None \<Rightarrow> Exit w st
                | Some w1 \<Rightarrow> Next reader1 w1 st)
           | UpdateMethodType \<Rightarrow> Next reader1 w (Update s st)
           | OtherMethodType k \<Rightarrow> Exit w st))"

lemma ServeConn_iteration_shorter:
  "ServeConn_iteration denied s reader w st = Next reader' w' st' \<Longrightarrow>
   length reader' < length reader"
  by (cases reader rule: Decode_MethodType.cases;
      cases "tl reader" rule: Decode_bool.cases)
     (auto simp: ServeConn_iteration_def split: option.splits MethodType.splits prod.splits)

text \<open>
  \<^verbatim>\<open>func (s *ManagerService) ServeConn(reader io.Reader, writer io.Writer)\<close>: the
  iterations until one returns. \<open>None\<close> when \<^verbatim>\<open>Quit\<close> blocks.
\<close>

function ServeConn ::
  "string \<Rightarrow> sref \<Rightarrow> gobval list \<Rightarrow> writer \<Rightarrow> mstate \<Rightarrow> (writer \<times> mstate) option" where
  "ServeConn denied s reader w st =
     (case ServeConn_iteration denied s reader w st of
        Next reader' w' st' \<Rightarrow> ServeConn denied s reader' w' st'
      | Exit w' st' \<Rightarrow> Some (w', st')
      | Blocked \<Rightarrow> None)"
  by pat_completeness auto
termination
  by (relation "measure (\<lambda>(denied, s, reader, w, st). length reader)")
     (auto dest: ServeConn_iteration_shorter)

text \<open>
  \<^verbatim>\<open>IPCServerListen\<close>: the new \<^verbatim>\<open>ManagerService\<close> object (at the address
  \<open>service\<close>) is put into the registry, the connection is served, and the session is
  taken out again.
\<close>

definition IPCServerListen ::
  "string \<Rightarrow> sref \<Rightarrow> gobval list \<Rightarrow> writer \<Rightarrow> osFile option \<Rightarrow> Token \<Rightarrow> mstate \<Rightarrow>
   (writer \<times> mstate) option" where
  "IPCServerListen denied service reader w ev tok st =
     (let st1 = st\<lparr>store := (store st)(service := \<lparr>events = ev, elevatedToken = tok\<rparr>)\<rparr>;
          st2 = st1\<lparr>managerServices := (managerServices st1)(service \<mapsto> True)\<rparr>
      in case ServeConn denied service reader w st2 of
           None \<Rightarrow> None
         | Some (w', st3) \<Rightarrow> Some (w', unregister service st3))"

text \<open>
  The states the package can be in: at the start \<^verbatim>\<open>haveQuit\<close> is 0 and the channel is
  empty; from there on, the operations above, the scheduler's writes of
  \<^verbatim>\<open>updateState\<close>, and the receive from \<^verbatim>\<open>quitManagersChan\<close> (made by the manager's
  main loop, which is not in these files).
\<close>

inductive reachable :: "mstate \<Rightarrow> bool" where
  start: "haveQuit st = 0 \<Longrightarrow> quitManagersChan st = 0 \<Longrightarrow> reachable st"
| after_Quit: "reachable st \<Longrightarrow> Quit s b st = Some (res, st') \<Longrightarrow> reachable st'"
| after_Update: "reachable st \<Longrightarrow> reachable (Update s st)"
| after_register:
    "reachable st \<Longrightarrow>
     reachable (st\<lparr>store := (store st)(s := \<lparr>events = ev, elevatedToken = tok\<rparr>),
                   managerServices := (managerServices st)(s \<mapsto> True)\<rparr>)"
| after_unregister: "reachable st \<Longrightarrow> reachable (unregister s st)"
| after_receive:
    "reachable st \<Longrightarrow> 0 < quitManagersChan st \<Longrightarrow>
     reachable (st\<lparr>quitManagersChan := quitManagersChan st - 1\<rparr>)"
| after_updateState: "reachable st \<Longrightarrow> reachable (st\<lparr>updateState := u\<rparr>)"

section \<open>Broadcast\<close>

text \<open>
  The encoding of the notification into the \<^verbatim>\<open>bytes.Buffer\<close> of \<^verbatim>\<open>notifyAll\<close>:
  the tag, then every value of \<^verbatim>\<open>ifaces\<close>; \<open>None\<close> when an \<^verbatim>\<open>Encode\<close> returns an
  error (writes into the buffer themselves do not fail).
\<close>

fun encode_buf :: "gobval list \<Rightarrow> gobval list option" where
  "encode_buf [] = Some []"
| "encode_buf (v # vs) =
     (if v = GNil then None
      else (case encode_buf vs of None \<Rightarrow> None | Some buf \<Rightarrow> Some (v # buf)))"

text \<open>
  \<^verbatim>\<open>func notifyAll(notificationType NotificationType, adminOnly bool, ifaces ...any)\<close>.
  The result is the set of the goroutines the loop over \<^verbatim>\<open>managerServices\<close> starts:
  the session each is started for, with the buffer it is to write.
\<close>

definition notifyAll ::
  "NotificationType \<Rightarrow> bool \<Rightarrow> gobval list \<Rightarrow> mstate \<Rightarrow> (sref \<times> gobval list) set" where
  "notifyAll notificationType adminOnly ifaces st =
     (if dom (managerServices st) = {} then {}
      else
        (case encode_buf (GNotificationType notificationType # ifaces) of
           None \<Rightarrow> {}
         | Some buf \<Rightarrow>
             (\<lambda>m. (m, buf)) `
               {m \<in> dom (managerServices st). \<not> (elevatedToken (store st m) = 0 \<and> adminOnly)}))"

text \<open>
  The bodies of such goroutines, run in the state \<open>st\<close>: the buffer is written to
  \<^verbatim>\<open>m.events\<close> when that is not nil. The result is the set of the writes made:
  the session, its events file and the buffer.
\<close>

definition deliver ::
  "mstate \<Rightarrow> (sref \<times> gobval list) set \<Rightarrow> (sref \<times> osFile \<times> gobval list) set" where
  "deliver st gs =
     \<Union> ((\<lambda>(m, buf). case events (store st m) of None \<Rightarrow> {} | Some f \<Rightarrow> {(m, f, buf)}) ` gs)"






section \<open>The update scheduler\<close>

text \<open>\<^verbatim>\<open>time.Duration\<close> is an int64 count of nanoseconds.\<close>

type_synonym Duration = "64 word"

definition Millisecond :: Duration where "Millisecond = 1000000"
definition Minute :: Duration where "Minute = 60000000000"
definition Hour :: Duration where "Hour = 3600000000000"

text \<open>Go's \<^verbatim>\<open>/\<close> on int64: the quotient truncated towards zero.\<close>

definition div_Duration :: "Duration \<Rightarrow> Duration \<Rightarrow> Duration" where
  "div_Duration a b = word_of_int (sint a sdiv sint b)"

text \<open>
  \<^verbatim>\<open>runtime.fastrandn\<close>, linked by name at lines 16-17; its body is the Go runtime's
  \<^verbatim>\<open>uint32(uint64(fastrand()) * uint64(n) >> 32)\<close>. The draw \<open>r\<close> is the value of
  \<^verbatim>\<open>fastrand()\<close>.
\<close>

definition fastrandn :: "32 word \<Rightarrow> 32 word \<Rightarrow> 32 word" where
  "fastrandn r n = ucast (drop_bit 32 ((ucast r :: 64 word) * (ucast n :: 64 word)))"

text \<open>
  \<^verbatim>\<open>jitterSleep(min, max)\<close>: the duration handed to \<^verbatim>\<open>time.Sleep\<close>, for the draw
  \<open>r\<close>: \<^verbatim>\<open>min + time.Millisecond*time.Duration(fastrandn(uint32((max-min+1)/time.Millisecond)))\<close>.
\<close>

definition jitterSleep :: "32 word \<Rightarrow> Duration \<Rightarrow> Duration \<Rightarrow> Duration" where
  "jitterSleep r mn mx =
     mn + Millisecond *
       (ucast (fastrandn r (ucast (div_Duration (mx - mn + 1) Millisecond) :: 32 word)) :: Duration)"

text \<open>
  The argument \<^verbatim>\<open>uint32((max-min+1)/time.Millisecond)\<close> of \<^verbatim>\<open>fastrandn\<close> in
  \<^verbatim>\<open>jitterSleep\<close>.
\<close>

definition jitter_range :: "Duration \<Rightarrow> Duration \<Rightarrow> 32 word" where
  "jitter_range mn mx = ucast (div_Duration (mx - mn + 1) Millisecond)"

text \<open>
  \<open>within lo hi d\<close>: the duration \<open>d\<close> lies between \<open>lo\<close> and \<open>hi\<close>, both included,
  in the order of int64.
\<close>

definition within :: "Duration \<Rightarrow> Duration \<Rightarrow> Duration \<Rightarrow> bool" where
  "within lo hi d \<longleftrightarrow> sint lo \<le> sint d \<and> sint d \<le> sint hi"

text \<open>
  \<open>attainable mn mx d\<close>: some draw makes \<^verbatim>\<open>jitterSleep(mn, mx)\<close> sleep for \<open>d\<close>.
\<close>

definition attainable :: "Duration \<Rightarrow> Duration \<Rightarrow> Duration \<Rightarrow> bool" where
  "attainable mn mx d \<longleftrightarrow> (\<exists>r. jitterSleep r mn mx = d)"

text \<open>What the scheduler does that can be seen from outside, in order.\<close>

datatype sched_event =
    CheckForUpdate
  | Sleep Duration
  | NotifyUpdateFound UpdateState

text \<open>
  The scheduler's run: the package-level state, the events so far, the number of draws
  taken from the random source, and the two locals of the loop.
\<close>

record run =
  globals :: mstate
  events_log :: "sched_event list"
  draws :: nat
  noError :: bool
  didNotify :: bool

definition do_jitterSleep :: "(nat \<Rightarrow> 32 word) \<Rightarrow> Duration \<Rightarrow> Duration \<Rightarrow> run \<Rightarrow> run" where
  "do_jitterSleep rnd mn mx r =
     r\<lparr>events_log := events_log r @ [Sleep (jitterSleep (rnd (draws r)) mn mx)],
       draws := draws r + 1\<rparr>"

definition do_notify :: "UpdateState \<Rightarrow> run \<Rightarrow> run" where
  "do_notify state r =
     r\<lparr>globals := (globals r)\<lparr>updateState := state\<rparr>,
       events_log := events_log r @ [NotifyUpdateFound state]\<rparr>"

text \<open>
  Modelled from the spec: \<^verbatim>\<open>updater.CheckForUpdate\<close> is in package updater, which is
  not under src/. It returns \<^verbatim>\<open>(UpdateInfo | none, error)\<close>: the pair of an optional
  update (here by its name) and an optional error.
\<close>

type_synonym check_result = "string option \<times> error option"

text \<open>
  One iteration of the \<^verbatim>\<open>for\<close> loop of \<^verbatim>\<open>checkForUpdates\<close> (lines 57-75), for the
  result \<^verbatim>\<open>(update, err)\<close> of \<^verbatim>\<open>updater.CheckForUpdate()\<close>.
\<close>

definition check_iteration :: "(nat \<Rightarrow> 32 word) \<Rightarrow> check_result \<Rightarrow> run \<Rightarrow> run" where
  "check_iteration rnd res r0 =
     (let update = fst res; err = snd res;
          r = r0\<lparr>events_log := events_log r0 @ [CheckForUpdate]\<rparr>
      in if err = None \<and> update \<noteq> None \<and> \<not> didNotify r then
           (do_notify UpdateStateFoundUpdate r)\<lparr>didNotify := True\<rparr>
         else if err \<noteq> None \<and> \<not> didNotify r then
           (if noError r then
              (do_jitterSleep rnd (Minute * 4) (Minute * 6) r)\<lparr>noError := False\<rparr>
            else do_jitterSleep rnd (Minute * 25) (Minute * 30) r)
         else do_jitterSleep rnd (Hour - Minute * 3) (Hour + Minute * 3) r)"

text \<open>
  The loop, for a script of the results of the successive checks. The loop of the source
  has no exit: when the script ends, the run is the one the next call of
  \<^verbatim>\<open>updater.CheckForUpdate()\<close> finds.
\<close>

fun check_loop :: "(nat \<Rightarrow> 32 word) \<Rightarrow> check_result list \<Rightarrow> run \<Rightarrow> run" where
  "check_loop rnd [] r = r"
| "check_loop rnd (res # rest) r = check_loop rnd rest (check_iteration rnd res r)"



text \<open>The states published by the scheduler, in order, as its events show them.\<close>

fun published :: "sched_event list \<Rightarrow> UpdateState list" where
  "published [] = []"
| "published (NotifyUpdateFound state # es) = state # published es"
| "published (e # es) = published es"


section \<open>A registry of two sessions\<close>

text \<open>
  The state used for the concrete runs below: session 1 holds an elevated token, session
  2 does not; both are registered, each with an events file of its own; nothing has quit.
\<close>

definition two_sessions :: mstate where
  "two_sessions =
     \<lparr>store = (\<lambda>m. \<lparr>events = Some (m + 10), elevatedToken = (if m = 1 then 42 else 0)\<rparr>),
      managerServices = [1 \<mapsto> True, 2 \<mapsto> True],
      haveQuit = 0,
      quitManagersChan = 0,
      updateState = UpdateStateUnknown,
      downloads = []\<rparr>"


section \<open>Privilege enforcement of Quit\<close>

text \<open>
  C4: for every session whose elevated token is zero, Quit fails with the
  permission-denied error and changes no state: the quit flag, the registry, every
  session's event handle and the shutdown channel are what they were (the whole state
  is returned as it was given).
\<close>

theorem Quit_unprivileged_denied:
  assumes "elevatedToken (store st s) = 0"
  shows "Quit s stopTunnelsOnQuit st = Some ((False, Some ERROR_ACCESS_DENIED), st)"
  using assms by (simp add: Quit_def)

theorem Quit_unprivileged_denied_witness:
  "elevatedToken (store two_sessions 2) = 0 \<and>
   Quit 2 True two_sessions = Some ((False, Some ERROR_ACCESS_DENIED), two_sessions)"
  using Quit_unprivileged_denied [of two_sessions 2 True]
  by (simp add: two_sessions_def)

section \<open>Arithmetic of jitterSleep\<close>

lemma unat_ucast_32_64: "unat (ucast (x :: 32 word) :: 64 word) = unat x"
proof -
  have "unat x < 2 ^ LENGTH(32)" by (rule unsigned_less)
  then have "unat x < 2 ^ 64" by simp
  then show ?thesis by (simp add: unsigned_ucast_eq take_bit_nat_eq_self)
qed

lemma unat_fastrandn: "unat (fastrandn r n) = (unat r * unat n) div 2 ^ 32"
proof -
  have "unat r < 2 ^ LENGTH(32)" by (rule unsigned_less)
  then have r: "unat r < 2 ^ 32" by simp
  have "unat n < 2 ^ LENGTH(32)" by (rule unsigned_less)
  then have n: "unat n < 2 ^ 32" by simp
  have "unat r * unat n < 2 ^ 32 * 2 ^ 32"
    using r n by (meson mult_strict_mono' zero_le)
  then have lt: "unat r * unat n < 2 ^ 64" by simp
  have p: "unat ((ucast r :: 64 word) * (ucast n :: 64 word)) = unat r * unat n"
    using lt by (simp add: unat_word_ariths unat_ucast_32_64)
  have d: "unat (drop_bit 32 ((ucast r :: 64 word) * (ucast n :: 64 word))) =
           (unat r * unat n) div 2 ^ 32"
    unfolding unat_drop_bit_eq p by (simp add: drop_bit_eq_div)
  have "(unat r * unat n) div 2 ^ 32 < 2 ^ 32"
    using lt by (simp add: less_mult_imp_div_less)
  then show ?thesis
    unfolding fastrandn_def by (simp add: unsigned_ucast_eq d take_bit_nat_eq_self)
qed

lemma fastrandn_less: "n \<noteq> 0 \<Longrightarrow> unat (fastrandn r n) < unat n"
proof -
  assume "n \<noteq> 0"
  then have pos: "0 < unat n" by (simp add: unat_gt_0)
  have "unat r < 2 ^ LENGTH(32)" by (rule unsigned_less)
  then have r: "unat r < 2 ^ 32" by simp
  have "unat r * unat n < 2 ^ 32 * unat n" using r pos by simp
  then have "(unat r * unat n) div 2 ^ 32 < unat n"
    by (simp add: less_mult_imp_div_less mult.commute)
  then show ?thesis by (simp add: unat_fastrandn)
qed

lemma fastrandn_zero: "fastrandn r 0 = 0"
  by (simp add: fastrandn_def)

text \<open>Every value below \<open>n\<close> is the result of \<open>fastrandn\<close> for some draw.\<close>

lemma fastrandn_attains:
  assumes "k < n"
  shows "\<exists>r. fastrandn r n = k"
proof -
  let ?N = "unat n" and ?K = "unat k"
  define R where "R = (?K * 2 ^ 32 + ?N - 1) div ?N"
  have KN: "?K < ?N" using assms by (simp only: word_less_nat_alt)
  have "?N < 2 ^ LENGTH(32)" by (rule unsigned_less)
  then have N: "?N < 2 ^ 32" by simp
  have N0: "0 < ?N" using KN by simp
  have eq: "R * ?N + (?K * 2 ^ 32 + ?N - 1) mod ?N = ?K * 2 ^ 32 + ?N - 1"
    unfolding R_def by (rule div_mult_mod_eq)
  have md: "(?K * 2 ^ 32 + ?N - 1) mod ?N < ?N" using N0 by simp
  have lo: "?K * 2 ^ 32 \<le> R * ?N" using eq md by linarith
  have hi: "R * ?N < ?K * 2 ^ 32 + 2 ^ 32" using eq N by linarith
  have q: "(R * ?N) div 2 ^ 32 = ?K"
    by (rule div_nat_eqI) (use lo hi in \<open>simp_all add: mult.commute\<close>)
  have "R * ?N < (?K + 1) * 2 ^ 32" using hi by simp
  also have "\<dots> \<le> ?N * 2 ^ 32" using KN by simp
  finally have "R * ?N < 2 ^ 32 * ?N" by (simp add: mult.commute)
  then have R: "R < 2 ^ 32" using N0 by simp
  have uR: "unat (of_nat R :: 32 word) = R"
    using R by (simp add: unat_of_nat take_bit_nat_eq_self)
  have "unat (fastrandn (of_nat R) n) = ?K"
    by (simp only: unat_fastrandn uR q)
  then have "fastrandn (of_nat R) n = k" by (simp only: word_unat_eq_iff)
  then show ?thesis ..
qed

lemma sint_word_of_int_64:
  "- (2 ^ 63) \<le> k \<Longrightarrow> k < 2 ^ 63 \<Longrightarrow> sint (word_of_int k :: 64 word) = k"
  by (simp add: sint_sbintrunc' signed_take_bit_int_eq_self)

lemma span_word:
  "(mx :: Duration) - mn + 1 = word_of_int (sint mx - sint mn + 1)"
  by simp

lemma uint_jitter_range:
  assumes "sint mn \<le> sint mx" and "sint mx - sint mn < 2 ^ 63 - 1"
  shows "uint (jitter_range mn mx) = ((sint mx - sint mn + 1) div 1000000) mod 2 ^ 32"
proof -
  let ?D = "sint mx - sint mn + 1"
  have D: "1 \<le> ?D" "?D < 2 ^ 63" using assms by simp_all
  have sD: "sint (mx - mn + 1) = ?D"
    unfolding span_word using D by (intro sint_word_of_int_64) simp_all
  have q: "sint (mx - mn + 1) sdiv sint Millisecond = ?D div 1000000"
    using D by (simp add: sD Millisecond_def signed_divide_int_def sgn_if)
  have "uint (ucast (word_of_int (?D div 1000000) :: 64 word) :: 32 word) =
        (?D div 1000000) mod 2 ^ 32"
  proof -
    have "uint (ucast (word_of_int (?D div 1000000) :: 64 word) :: 32 word)
          = take_bit 32 (take_bit 64 (?D div 1000000))"
      by (simp add: unsigned_ucast_eq uint_word_of_int take_bit_eq_mod)
    also have "\<dots> = take_bit 32 (?D div 1000000)" by simp
    finally show ?thesis by (simp add: take_bit_eq_mod)
  qed
  then show ?thesis
    by (simp add: jitter_range_def div_Duration_def q)
qed

lemma jitterSleep_by_range:
  "jitterSleep r mn mx = mn + Millisecond * ucast (fastrandn r (jitter_range mn mx))"
  by (simp add: jitterSleep_def jitter_range_def)

lemma fastrandn_offset:
  assumes "sint mn \<le> sint mx" and "sint mx - sint mn < 2 ^ 63 - 1"
  shows "1000000 * uint (fastrandn r (jitter_range mn mx)) \<le> sint mx - sint mn"
    and "sint mn < sint mx \<Longrightarrow>
         1000000 * uint (fastrandn r (jitter_range mn mx)) < sint mx - sint mn"
proof -
  let ?D = "sint mx - sint mn + 1"
  let ?n = "jitter_range mn mx"
  let ?k = "uint (fastrandn r ?n)"
  have D: "1 \<le> ?D" using assms by simp
  have n: "uint ?n \<le> ?D div 1000000"
  proof -
    have "0 \<le> ?D div 1000000" using D by (simp add: pos_imp_zdiv_nonneg_iff)
    then have "(?D div 1000000) mod 2 ^ 32 \<le> ?D div 1000000"
      by (rule zmod_le_nonneg_dividend)
    then show ?thesis unfolding uint_jitter_range [OF assms] .
  qed
  have k: "?k = 0 \<or> ?k + 1 \<le> ?D div 1000000"
  proof (cases "?n = 0")
    case True
    then show ?thesis by (simp add: fastrandn_zero)
  next
    case False
    then have "unat (fastrandn r ?n) < unat ?n" by (rule fastrandn_less)
    then have "fastrandn r ?n < ?n" by (simp only: word_less_nat_alt)
    then have "?k < uint ?n" by (simp only: word_less_def)
    then show ?thesis using n by linarith
  qed
  have m: "1000000 * (?D div 1000000) \<le> ?D"
  proof -
    have "1000000 * (?D div 1000000) + ?D mod 1000000 = ?D" by (rule mult_div_mod_eq)
    moreover have "0 \<le> ?D mod 1000000" by simp
    ultimately show ?thesis by linarith
  qed
  define q where "q = ?D div 1000000"
  define d where "d = sint mx - sint mn"
  have k': "?k = 0 \<or> ?k + 1 \<le> q" using k by (simp add: q_def)
  have m': "1000000 * q \<le> d + 1" using m by (simp add: q_def d_def)
  have d0: "0 \<le> d" using assms by (simp add: d_def)
  have "1000000 * ?k \<le> d" using k' m' d0 by (elim disjE) simp_all
  then show "1000000 * ?k \<le> sint mx - sint mn" by (simp add: d_def)
  show "1000000 * ?k < sint mx - sint mn" if "sint mn < sint mx"
  proof -
    have "0 < d" using that by (simp add: d_def)
    then have "1000000 * ?k < d" using k' m' by (elim disjE) simp_all
    then show ?thesis by (simp add: d_def)
  qed
qed

lemma sint_jitterSleep:
  assumes "sint mn \<le> sint mx" and "sint mx - sint mn < 2 ^ 63 - 1"
  shows "sint (jitterSleep r mn mx) =
         sint mn + 1000000 * uint (fastrandn r (jitter_range mn mx))"
proof -
  let ?k = "uint (fastrandn r (jitter_range mn mx))"
  have le: "1000000 * ?k \<le> sint mx - sint mn"
    by (rule fastrandn_offset(1) [OF assms])
  have k0: "0 \<le> ?k" by simp
  have lo: "- (2 ^ 63) \<le> sint mn" using sint_ge [of mn] by simp
  have hi: "sint mx < 2 ^ 63" using sint_lt [of mx] by simp
  have w: "jitterSleep r mn mx = word_of_int (sint mn + 1000000 * ?k)"
    by (simp add: jitterSleep_by_range Millisecond_def)
  have "- (2 ^ 63) \<le> sint mn + 1000000 * ?k" using lo k0 by linarith
  moreover have "sint mn + 1000000 * ?k < 2 ^ 63" using le hi by linarith
  ultimately show ?thesis
    unfolding w by (rule sint_word_of_int_64)
qed

lemma jitterSleep_within:
  assumes "sint mn \<le> sint mx" and "sint mx - sint mn < 2 ^ 63 - 1"
  shows "within mn mx (jitterSleep r mn mx)"
proof -
  have "0 \<le> uint (fastrandn r (jitter_range mn mx))" by simp
  moreover note fastrandn_offset(1) [OF assms, of r]
  ultimately show ?thesis
    unfolding within_def sint_jitterSleep [OF assms] by linarith
qed

lemma jitterSleep_below_max:
  assumes "sint mn < sint mx" and "sint mx - sint mn < 2 ^ 63 - 1"
  shows "sint (jitterSleep r mn mx) < sint mx"
proof -
  have le: "sint mn \<le> sint mx" using assms(1) by simp
  have "1000000 * uint (fastrandn r (jitter_range mn mx)) < sint mx - sint mn"
    by (rule fastrandn_offset(2) [OF le assms(2) assms(1)])
  then show ?thesis
    unfolding sint_jitterSleep [OF le assms(2)] by linarith
qed

lemma jitterSleep_same: "jitterSleep r mn mn = mn"
proof -
  have "jitter_range mn mn = 0"
    by (simp add: jitter_range_def div_Duration_def Millisecond_def signed_divide_int_def)
  then show ?thesis by (simp add: jitterSleep_by_range fastrandn_zero)
qed

text \<open>The four intervals the scheduler sleeps in.\<close>

lemma sleep_2_5: "within (Minute * 2) (Minute * 5) (jitterSleep r (Minute * 2) (Minute * 5))"
  by (rule jitterSleep_within) (simp_all add: Minute_def)




section \<open>The range of jitterSleep\<close>

text \<open>
  C9, as the code has it: for \<open>mn \<le> mx\<close> (and \<open>mx - mn + 1\<close> within int64),
  \<^verbatim>\<open>jitterSleep(mn, mx)\<close> sleeps for \<open>mn\<close> plus a whole number \<open>k\<close> of milliseconds,
  where \<open>k\<close> is below \<^verbatim>\<open>uint32((mx-mn+1)/time.Millisecond)\<close> (or 0 when that is 0).
  The duration lies in \<open>[mn, mx]\<close>; every such \<open>k\<close> is attained by some draw; and
  \<open>mx\<close> itself is attained only when \<open>mn = mx\<close>.
\<close>

theorem jitterSleep_millisecond_steps:
  assumes "sint mn \<le> sint mx" and "sint mx - sint mn < 2 ^ 63 - 1"
  shows "within mn mx (jitterSleep r mn mx) \<and>
         (\<exists>k. (k < jitter_range mn mx \<or> (k = 0 \<and> jitter_range mn mx = 0)) \<and>
              jitterSleep r mn mx = mn + Millisecond * ucast k \<and>
              sint (jitterSleep r mn mx) = sint mn + 1000000 * uint k) \<and>
         (\<forall>k. k < jitter_range mn mx \<longrightarrow> attainable mn mx (mn + Millisecond * ucast k)) \<and>
         (attainable mn mx mx \<longleftrightarrow> mn = mx)"
proof (intro conjI allI impI)
  show "within mn mx (jitterSleep r mn mx)"
    by (rule jitterSleep_within [OF assms])
next
  let ?k = "fastrandn r (jitter_range mn mx)"
  have "?k < jitter_range mn mx \<or> (?k = 0 \<and> jitter_range mn mx = 0)"
  proof (cases "jitter_range mn mx = 0")
    case True
    then show ?thesis by (simp add: fastrandn_zero)
  next
    case False
    then have "unat ?k < unat (jitter_range mn mx)" by (rule fastrandn_less)
    then have "?k < jitter_range mn mx" by (simp only: word_less_nat_alt)
    then show ?thesis by simp
  qed
  moreover have "jitterSleep r mn mx = mn + Millisecond * ucast ?k"
    by (rule jitterSleep_by_range)
  moreover have "sint (jitterSleep r mn mx) = sint mn + 1000000 * uint ?k"
    by (rule sint_jitterSleep [OF assms])
  ultimately show "\<exists>k. (k < jitter_range mn mx \<or> (k = 0 \<and> jitter_range mn mx = 0)) \<and>
              jitterSleep r mn mx = mn + Millisecond * ucast k \<and>
              sint (jitterSleep r mn mx) = sint mn + 1000000 * uint k"
    by blast
next
  fix k assume "k < jitter_range mn mx"
  then obtain r' where "fastrandn r' (jitter_range mn mx) = k"
    using fastrandn_attains by blast
  then have "jitterSleep r' mn mx = mn + Millisecond * ucast k"
    by (simp add: jitterSleep_by_range)
  then show "attainable mn mx (mn + Millisecond * ucast k)"
    unfolding attainable_def by blast
next
  show "attainable mn mx mx \<longleftrightarrow> mn = mx"
  proof
    assume "attainable mn mx mx"
    then obtain r' where r': "jitterSleep r' mn mx = mx"
      unfolding attainable_def by blast
    have "\<not> sint mn < sint mx"
    proof
      assume "sint mn < sint mx"
      then have "sint (jitterSleep r' mn mx) < sint mx"
        using assms(2) by (rule jitterSleep_below_max)
      then show False by (simp add: r')
    qed
    then have "sint mn = sint mx" using assms(1) by simp
    then show "mn = mx" by (rule signed_word_eqI)
  next
    assume "mn = mx"
    then show "attainable mn mx mx"
      unfolding attainable_def by (auto simp: jitterSleep_same)
  qed
qed

lemma jitter_range_4_6: "jitter_range (Minute * 4) (Minute * 6) = 120000"
  by (simp add: jitter_range_def div_Duration_def Minute_def Millisecond_def
      signed_divide_int_def)

theorem jitterSleep_millisecond_steps_witness:
  "sint (Minute * 4) \<le> sint (Minute * 6) \<and>
   sint (Minute * 6) - sint (Minute * 4) < 2 ^ 63 - 1 \<and>
   within (Minute * 4) (Minute * 6) (jitterSleep 7 (Minute * 4) (Minute * 6)) \<and>
   attainable (Minute * 4) (Minute * 6) (Minute * 4 + Millisecond * 119999) \<and>
   \<not> attainable (Minute * 4) (Minute * 6) (Minute * 6)"
proof -
  have h1: "sint (Minute * 4) \<le> sint (Minute * 6)" by (simp add: Minute_def)
  have h2: "sint (Minute * 6) - sint (Minute * 4) < 2 ^ 63 - 1" by (simp add: Minute_def)
  note t = jitterSleep_millisecond_steps [OF h1 h2, of 7]
  have k: "(119999 :: 32 word) < jitter_range (Minute * 4) (Minute * 6)"
    by (simp add: jitter_range_4_6)
  have "attainable (Minute * 4) (Minute * 6) (Minute * 4 + Millisecond * ucast (119999 :: 32 word))"
    using t k by blast
  then have a: "attainable (Minute * 4) (Minute * 6) (Minute * 4 + Millisecond * 119999)"
    by simp
  have ne: "Minute * 4 \<noteq> Minute * 6" by (simp add: Minute_def)
  have "\<not> attainable (Minute * 4) (Minute * 6) (Minute * 6)"
    using t ne by blast
  then show ?thesis using h1 h2 t a by blast
qed

text \<open>
  The claim as written fails: between 4 and 6 minutes, no draw makes the sleep last the
  6 minutes of the upper end (the longest sleep is a millisecond shorter).
\<close>

theorem jitterSleep_max_counterexample:
  "\<not> attainable (Minute * 4) (Minute * 6) (Minute * 6)"
proof
  assume "attainable (Minute * 4) (Minute * 6) (Minute * 6)"
  then obtain r where r: "jitterSleep r (Minute * 4) (Minute * 6) = Minute * 6"
    unfolding attainable_def by blast
  have "sint (jitterSleep r (Minute * 4) (Minute * 6)) < sint (Minute * 6)"
    by (rule jitterSleep_below_max) (simp_all add: Minute_def)
  then show False by (simp add: r)
qed

lemma longest_4_6:
  "jitterSleep 4294967295 (Minute * 4) (Minute * 6) = Minute * 6 - Millisecond"
  by code_simp

section \<open>The scheduler\<close>

lemma published_append: "published (es @ fs) = published es @ published fs"
  by (induction es rule: published.induct) simp_all




lemma check_iteration_otherwise:
  assumes "didNotify r \<or> (snd res = None \<and> fst res = None)"
  shows "check_iteration rnd res r =
         r\<lparr>events_log := events_log r @
              [CheckForUpdate,
               Sleep (jitterSleep (rnd (draws r)) (Hour - Minute * 3) (Hour + Minute * 3))],
           draws := draws r + 1\<rparr>"
  using assms by (auto simp: check_iteration_def do_jitterSleep_def Let_def)



lemma check_iteration_notified:
  assumes "didNotify r"
  shows "didNotify (check_iteration rnd res r) \<and>
         published (events_log (check_iteration rnd res r)) = published (events_log r) \<and>
         globals (check_iteration rnd res r) = globals r"
  using assms by (simp add: check_iteration_otherwise published_append)

lemma check_loop_notified:
  "didNotify r \<Longrightarrow>
   didNotify (check_loop rnd checks r) \<and>
   published (events_log (check_loop rnd checks r)) = published (events_log r) \<and>
   globals (check_loop rnd checks r) = globals r"
proof (induction checks arbitrary: r)
  case Nil
  then show ?case by simp
next
  case (Cons res checks)
  from check_iteration_notified [OF Cons.prems, of rnd res]
  show ?case using Cons.IH [of "check_iteration rnd res r"] by simp
qed

lemma check_iteration_published:
  "\<not> didNotify r \<Longrightarrow>
   (\<not> didNotify (check_iteration rnd res r) \<and>
    published (events_log (check_iteration rnd res r)) = published (events_log r)) \<or>
   (didNotify (check_iteration rnd res r) \<and>
    published (events_log (check_iteration rnd res r)) =
      published (events_log r) @ [UpdateStateFoundUpdate])"
  by (simp add: check_iteration_def do_jitterSleep_def do_notify_def Let_def published_append)

lemma check_loop_published:
  "\<not> didNotify r \<Longrightarrow>
   published (events_log (check_loop rnd checks r)) = published (events_log r) \<or>
   published (events_log (check_loop rnd checks r)) =
     published (events_log r) @ [UpdateStateFoundUpdate]"
proof (induction checks arbitrary: r)
  case Nil
  then show ?case by simp
next
  case (Cons res checks)
  from check_iteration_published [OF Cons.prems, of rnd res]
  show ?case
  proof (elim disjE conjE)
    assume "\<not> didNotify (check_iteration rnd res r)"
      and "published (events_log (check_iteration rnd res r)) = published (events_log r)"
    then show ?thesis using Cons.IH [of "check_iteration rnd res r"] by simp
  next
    assume "didNotify (check_iteration rnd res r)"
      and "published (events_log (check_iteration rnd res r)) =
           published (events_log r) @ [UpdateStateFoundUpdate]"
    then show ?thesis
      using check_loop_notified [of "check_iteration rnd res r" rnd checks] by simp
  qed
qed

section \<open>Unofficial builds\<close>



section \<open>Backoff after errors\<close>






section \<open>A found update\<close>




section \<open>Who a broadcast goes to\<close>

lemma notifyAll_targets:
  "notifyAll notificationType adminOnly ifaces st =
     (case encode_buf (GNotificationType notificationType # ifaces) of
        None \<Rightarrow> {}
      | Some buf \<Rightarrow>
          (\<lambda>m. (m, buf)) `
            {m \<in> dom (managerServices st). \<not> (elevatedToken (store st m) = 0 \<and> adminOnly)})"
  by (simp add: notifyAll_def split: option.splits)

lemma notifyAll_member:
  "(m, buf) \<in> notifyAll notificationType adminOnly ifaces st \<Longrightarrow>
   m \<in> dom (managerServices st) \<and> \<not> (elevatedToken (store st m) = 0 \<and> adminOnly)"
  by (auto simp: notifyAll_targets split: option.splits)

lemma deliver_member: "(m, f, buf) \<in> deliver st' gs \<Longrightarrow> (m, buf) \<in> gs"
  by (auto simp: deliver_def split: option.splits)



lemma two_sessions_elevated:
  "{m \<in> dom (managerServices two_sessions). elevatedToken (store two_sessions m) \<noteq> 0} = {1}"
  by (auto simp: two_sessions_def split: if_splits)

text \<open>
  C8: a broadcast with \<^verbatim>\<open>adminOnly\<close> set starts a delivery for exactly the registered
  sessions whose elevated token is not zero (for none at all when the encoding fails), so
  no delivery is started for a session whose token is zero, and no write to its events
  file comes from the broadcast, whatever the state the deliveries run in.
\<close>

theorem adminOnly_filter:
  "notifyAll notificationType True ifaces st =
     (case encode_buf (GNotificationType notificationType # ifaces) of
        None \<Rightarrow> {}
      | Some buf \<Rightarrow>
          (\<lambda>m. (m, buf)) `
            {m \<in> dom (managerServices st). elevatedToken (store st m) \<noteq> 0}) \<and>
   (\<forall>m buf. elevatedToken (store st m) = 0 \<longrightarrow>
      (m, buf) \<notin> notifyAll notificationType True ifaces st) \<and>
   (\<forall>m f buf st'. elevatedToken (store st m) = 0 \<longrightarrow>
      (m, f, buf) \<notin> deliver st' (notifyAll notificationType True ifaces st))"
proof (intro conjI allI impI)
  show "notifyAll notificationType True ifaces st =
     (case encode_buf (GNotificationType notificationType # ifaces) of
        None \<Rightarrow> {}
      | Some buf \<Rightarrow>
          (\<lambda>m. (m, buf)) `
            {m \<in> dom (managerServices st). elevatedToken (store st m) \<noteq> 0})"
    unfolding notifyAll_targets by (simp del: encode_buf.simps split: option.split)
next
  fix m buf assume "elevatedToken (store st m) = 0"
  then show "(m, buf) \<notin> notifyAll notificationType True ifaces st"
    using notifyAll_member [of m buf notificationType True ifaces st] by blast
next
  fix m f buf st' assume "elevatedToken (store st m) = 0"
  then show "(m, f, buf) \<notin> deliver st' (notifyAll notificationType True ifaces st)"
    using notifyAll_member [of m buf notificationType True ifaces st]
      deliver_member [of m f buf st'] by blast
qed

theorem adminOnly_filter_witness:
  "elevatedToken (store two_sessions 2) = 0 \<and>
   elevatedToken (store two_sessions 1) \<noteq> 0 \<and>
   notifyAll UpdateProgressNotificationType True [GBool True] two_sessions =
     {(1, [GNotificationType UpdateProgressNotificationType, GBool True])} \<and>
   (2, [GNotificationType UpdateProgressNotificationType, GBool True]) \<notin>
     notifyAll UpdateProgressNotificationType True [GBool True] two_sessions \<and>
   (2, 12, [GNotificationType UpdateProgressNotificationType, GBool True]) \<notin>
     deliver two_sessions (notifyAll UpdateProgressNotificationType True [GBool True] two_sessions)"
proof -
  have h2: "elevatedToken (store two_sessions 2) = 0" by (simp add: two_sessions_def)
  have h1: "elevatedToken (store two_sessions 1) \<noteq> 0" by (simp add: two_sessions_def)
  note t = adminOnly_filter [of UpdateProgressNotificationType "[GBool True]" two_sessions]
  have "notifyAll UpdateProgressNotificationType True [GBool True] two_sessions =
     {(1, [GNotificationType UpdateProgressNotificationType, GBool True])}"
    using t by (simp add: two_sessions_elevated)
  then show ?thesis using h1 h2 t by blast
qed

section \<open>The scope of each notification\<close>




section \<open>Quit by an elevated session\<close>

lemma Quit_first:
  assumes "elevatedToken (store st s) \<noteq> 0" and "haveQuit st = 0" and "quitManagersChan st = 0"
  shows "Quit s b st =
         Some ((False, None), (unregister s (st\<lparr>haveQuit := 1\<rparr>))\<lparr>quitManagersChan := 1\<rparr>)"
  using assms
  by (simp add: Quit_def CompareAndSwap_haveQuit_def send_quitManagersChan_def unregister_def)

lemma Quit_later:
  assumes "elevatedToken (store st s) \<noteq> 0" and "haveQuit st \<noteq> 0"
  shows "Quit s b st = Some ((True, None), st)"
  using assms by (simp add: Quit_def CompareAndSwap_haveQuit_def)

lemma Quit_invariant:
  "Quit s b st = Some (res, st') \<Longrightarrow> haveQuit st = 0 \<longrightarrow> quitManagersChan st = 0 \<Longrightarrow>
   haveQuit st' = 0 \<longrightarrow> quitManagersChan st' = 0"
  by (auto simp: Quit_def CompareAndSwap_haveQuit_def send_quitManagersChan_def unregister_def
      split: if_splits)

text \<open>
  In every state the package can be in, the shutdown channel is empty as long as the quit
  flag is 0: the only send follows the successful compare-and-swap.
\<close>

lemma reachable_channel_empty:
  "reachable st \<Longrightarrow> haveQuit st = 0 \<longrightarrow> quitManagersChan st = 0"
proof (induction rule: reachable.induct)
  case (after_Quit st s b res st')
  then show ?case using Quit_invariant by blast
qed (simp_all add: Update_def unregister_def)

lemma Quit_returns:
  assumes "reachable st"
  shows "Quit s b st \<noteq> None"
  using reachable_channel_empty [OF assms]
  by (auto simp: Quit_def CompareAndSwap_haveQuit_def send_quitManagersChan_def unregister_def)

lemma two_sessions_reachable: "reachable two_sessions"
  by (rule reachable.start) (simp_all add: two_sessions_def)




section \<open>Quit is idempotent\<close>

lemma Quit_calls_later:
  assumes "haveQuit st \<noteq> 0"
  shows "\<forall>c\<in>set cs. elevatedToken (store st (fst c)) \<noteq> 0 \<Longrightarrow>
         Quit_calls cs st = Some (replicate (length cs) (True, None), st)"
proof (induction cs)
  case Nil
  then show ?case by simp
next
  case (Cons c cs)
  then have "Quit (fst c) (snd c) st = Some ((True, None), st)"
    using assms by (simp add: Quit_later)
  then show ?case using Cons by simp
qed

text \<open>
  C3: of calls of \<^verbatim>\<open>Quit\<close> made one after the other by elevated sessions, starting
  with the quit flag 0 in a state the package can be in, the first returns
  \<^verbatim>\<open>(false, nil)\<close> and every later one returns \<^verbatim>\<open>(true, nil)\<close> and leaves the whole
  state as it found it: registry, events files, flag and shutdown channel.
\<close>

theorem Quit_idempotent:
  assumes "\<forall>c\<in>set (c0 # cs). elevatedToken (store st (fst c)) \<noteq> 0"
    and "haveQuit st = 0" and "reachable st"
  shows "\<exists>st1. Quit (fst c0) (snd c0) st = Some ((False, None), st1) \<and>
           Quit_calls (c0 # cs) st =
             Some ((False, None) # replicate (length cs) (True, None), st1) \<and>
           (\<forall>c\<in>set cs. Quit (fst c) (snd c) st1 = Some ((True, None), st1)) \<and>
           haveQuit st1 = 1 \<and> quitManagersChan st1 = 1"
proof -
  define st1 where "st1 = (unregister (fst c0) (st\<lparr>haveQuit := 1\<rparr>))\<lparr>quitManagersChan := 1\<rparr>"
  have e0: "elevatedToken (store st (fst c0)) \<noteq> 0" using assms(1) by simp
  have ch: "quitManagersChan st = 0"
    using reachable_channel_empty [OF assms(3)] assms(2) by simp
  have q: "Quit (fst c0) (snd c0) st = Some ((False, None), st1)"
    unfolding st1_def by (rule Quit_first [OF e0 assms(2) ch])
  have hq: "haveQuit st1 \<noteq> 0" by (simp add: st1_def unregister_def)
  have el: "\<forall>c\<in>set cs. elevatedToken (store st1 (fst c)) \<noteq> 0"
    using assms(1) by (simp add: st1_def unregister_def)
  have rest: "Quit_calls cs st1 = Some (replicate (length cs) (True, None), st1)"
    by (rule Quit_calls_later [OF hq el])
  have all: "Quit_calls (c0 # cs) st =
             Some ((False, None) # replicate (length cs) (True, None), st1)"
    by (simp add: q rest)
  have later: "\<forall>c\<in>set cs. Quit (fst c) (snd c) st1 = Some ((True, None), st1)"
    using el hq by (simp add: Quit_later)
  have f: "haveQuit st1 = 1" "quitManagersChan st1 = 1"
    by (simp_all add: st1_def unregister_def)
  show ?thesis using q all later f by blast
qed

theorem Quit_idempotent_witness:
  "elevatedToken (store two_sessions 1) \<noteq> 0 \<and>
   haveQuit two_sessions = 0 \<and> reachable two_sessions \<and>
   map_option fst (Quit_calls [(1, True), (1, False), (1, True)] two_sessions) =
     Some [(False, None), (True, None), (True, None)]"
proof -
  have h1: "\<forall>c\<in>set ((1, True) # [(1, False), (1, True)]).
              elevatedToken (store two_sessions (fst c)) \<noteq> 0"
    by (simp add: two_sessions_def)
  have h2: "haveQuit two_sessions = 0" by (simp add: two_sessions_def)
  have h3: "reachable two_sessions" by (rule two_sessions_reachable)
  from Quit_idempotent [OF h1 h2 h3]
  obtain st1 where "Quit_calls ((1, True) # [(1, False), (1, True)]) two_sessions =
      Some ((False, None) # replicate (length [(1 :: nat, False), (1, True)]) (True, None), st1)"
    by blast
  then have "map_option fst (Quit_calls [(1, True), (1, False), (1, True)] two_sessions) =
     Some [(False, None), (True, None), (True, None)]"
    by (simp add: numeral_2_eq_2)
  moreover have "elevatedToken (store two_sessions 1) \<noteq> 0" using h1 by simp
  ultimately show ?thesis using h2 h3 by simp
qed

section \<open>Requests and responses of the dispatch loop\<close>

lemma Encode_sent: "Encode v w = Some w' \<Longrightarrow> sent w' = sent w @ [v]"
  by (auto simp: Encode_def split: if_splits list.splits)

lemma iteration_Update:
  "Decode_MethodType reader = Some (UpdateMethodType, reader1) \<Longrightarrow>
   ServeConn_iteration denied s reader w st = Next reader1 w (Update s st)"
  by (simp add: ServeConn_iteration_def)

lemma iteration_Other:
  "Decode_MethodType reader = Some (OtherMethodType k, reader1) \<Longrightarrow>
   ServeConn_iteration denied s reader w st = Exit w st"
  by (simp add: ServeConn_iteration_def)

lemma iteration_UpdateState:
  assumes "Decode_MethodType reader = Some (UpdateStateMethodType, reader1)"
  shows "ServeConn_iteration denied s reader w st = Exit w st \<or>
         (\<exists>w'. ServeConn_iteration denied s reader w st = Next reader1 w' st \<and>
               sent w' = sent w @ [GUpdateState (updateState st)])"
proof (cases "Encode (GUpdateState (UpdateState_method s st)) w")
  case None
  then show ?thesis using assms by (simp add: ServeConn_iteration_def)
next
  case (Some w')
  then have "sent w' = sent w @ [GUpdateState (updateState st)]"
    using Encode_sent [OF Some] by (simp add: UpdateState_method_def)
  then show ?thesis using assms Some by (simp add: ServeConn_iteration_def)
qed

lemma iteration_Quit:
  assumes "Decode_MethodType reader = Some (QuitMethodType, reader1)"
    and "reachable st"
  shows "(\<exists>w' st'. ServeConn_iteration denied s reader w st = Exit w' st') \<or>
         (\<exists>b reader2 alreadyQuit retErr st' w'.
            Decode_bool reader1 = Some (b, reader2) \<and>
            Quit s b st = Some ((alreadyQuit, retErr), st') \<and>
            ServeConn_iteration denied s reader w st = Next reader2 w' st' \<and>
            sent w' = sent w @ [GBool alreadyQuit, GString (errToString denied retErr)])"
proof (cases "Decode_bool reader1")
  case None
  then show ?thesis using assms(1) by (simp add: ServeConn_iteration_def)
next
  case (Some br)
  obtain b reader2 where br: "br = (b, reader2)" by (cases br)
  from Quit_returns [OF assms(2), of s b]
  obtain alreadyQuit retErr st' where q: "Quit s b st = Some ((alreadyQuit, retErr), st')"
    by (cases "Quit s b st") auto
  show ?thesis
  proof (cases "Encode (GBool alreadyQuit) w")
    case None
    then show ?thesis using assms(1) Some br q by (simp add: ServeConn_iteration_def)
  next
    case w1: (Some w1)
    show ?thesis
    proof (cases "Encode (GString (errToString denied retErr)) w1")
      case None
      then show ?thesis using assms(1) Some br q w1 by (simp add: ServeConn_iteration_def)
    next
      case w2: (Some w2)
      have "sent w2 = sent w @ [GBool alreadyQuit, GString (errToString denied retErr)]"
        using Encode_sent [OF w1] Encode_sent [OF w2] by simp
      then show ?thesis
        using assms(1) Some br q w1 w2 by (simp add: ServeConn_iteration_def)
    qed
  qed
qed

text \<open>
  C1, as the code has it. For a decoded \<^verbatim>\<open>Quit\<close> request the iteration either makes
  \<^verbatim>\<open>ServeConn\<close> return or writes the one response (the two values \<^verbatim>\<open>alreadyQuit\<close>
  and the error text) and goes on; for a decoded \<^verbatim>\<open>UpdateState\<close> request it either
  returns or writes the one response (the state) and goes on; a method type it does not
  know makes it return (the state being one the package can be in, so that \<^verbatim>\<open>Quit\<close>
  itself returns). A decoded \<^verbatim>\<open>Update\<close> request gets neither: nothing is written
  and the loop goes on to read the next request.
\<close>

theorem ServeConn_iteration_responses:
  assumes "Decode_MethodType reader = Some (methodType, reader1)"
  shows "(methodType = UpdateMethodType \<longrightarrow>
            ServeConn_iteration denied s reader w st = Next reader1 w (Update s st)) \<and>
         (methodType = UpdateStateMethodType \<longrightarrow>
            ServeConn_iteration denied s reader w st = Exit w st \<or>
            (\<exists>w'. ServeConn_iteration denied s reader w st = Next reader1 w' st \<and>
                  sent w' = sent w @ [GUpdateState (updateState st)])) \<and>
         (methodType = QuitMethodType \<and> reachable st \<longrightarrow>
            (\<exists>w' st'. ServeConn_iteration denied s reader w st = Exit w' st') \<or>
            (\<exists>b reader2 alreadyQuit retErr st' w'.
               Decode_bool reader1 = Some (b, reader2) \<and>
               Quit s b st = Some ((alreadyQuit, retErr), st') \<and>
               ServeConn_iteration denied s reader w st = Next reader2 w' st' \<and>
               sent w' = sent w @ [GBool alreadyQuit, GString (errToString denied retErr)])) \<and>
         (\<forall>k. methodType = OtherMethodType k \<longrightarrow>
            ServeConn_iteration denied s reader w st = Exit w st)"
proof (intro conjI allI impI)
  assume "methodType = UpdateMethodType"
  then show "ServeConn_iteration denied s reader w st = Next reader1 w (Update s st)"
    using assms by (simp add: iteration_Update)
next
  assume "methodType = UpdateStateMethodType"
  then show "ServeConn_iteration denied s reader w st = Exit w st \<or>
            (\<exists>w'. ServeConn_iteration denied s reader w st = Next reader1 w' st \<and>
                  sent w' = sent w @ [GUpdateState (updateState st)])"
    using assms iteration_UpdateState by blast
next
  assume "methodType = QuitMethodType \<and> reachable st"
  then show "(\<exists>w' st'. ServeConn_iteration denied s reader w st = Exit w' st') \<or>
            (\<exists>b reader2 alreadyQuit retErr st' w'.
               Decode_bool reader1 = Some (b, reader2) \<and>
               Quit s b st = Some ((alreadyQuit, retErr), st') \<and>
               ServeConn_iteration denied s reader w st = Next reader2 w' st' \<and>
               sent w' = sent w @ [GBool alreadyQuit, GString (errToString denied retErr)])"
    using assms iteration_Quit [of reader reader1 st denied s w] by blast
next
  fix k assume "methodType = OtherMethodType k"
  then show "ServeConn_iteration denied s reader w st = Exit w st"
    using assms by (simp add: iteration_Other)
qed

lemma Quit_two_sessions_2:
  "Quit 2 True two_sessions = Some ((False, Some ERROR_ACCESS_DENIED), two_sessions)"
  by (simp add: Quit_def two_sessions_def)

theorem ServeConn_iteration_responses_witness:
  "Decode_MethodType [GMethodType QuitMethodType, GBool True] =
     Some (QuitMethodType, [GBool True]) \<and>
   reachable two_sessions \<and>
   ServeConn_iteration ''Access is denied.'' 2 [GMethodType QuitMethodType, GBool True]
     \<lparr>sent = [], script = []\<rparr> two_sessions =
     Next [] \<lparr>sent = [GBool False, GString ''Access is denied.''], script = []\<rparr> two_sessions"
proof -
  have h1: "Decode_MethodType [GMethodType QuitMethodType, GBool True] =
     Some (QuitMethodType, [GBool True])" by simp
  have h2: "reachable two_sessions" by (rule two_sessions_reachable)
  note t = ServeConn_iteration_responses [OF h1, of "''Access is denied.''" 2
      "\<lparr>sent = [], script = []\<rparr>" two_sessions]
  have ne: "ServeConn_iteration ''Access is denied.'' 2 [GMethodType QuitMethodType, GBool True]
     \<lparr>sent = [], script = []\<rparr> two_sessions \<noteq> Exit w' st'" for w' st'
    by (simp add: ServeConn_iteration_def Quit_two_sessions_2 Encode_def)
  from t h2 ne obtain b reader2 alreadyQuit retErr st' w' where
    d: "Decode_bool [GBool True] = Some (b, reader2)"
    and q: "Quit 2 b two_sessions = Some ((alreadyQuit, retErr), st')"
    and i: "ServeConn_iteration ''Access is denied.'' 2 [GMethodType QuitMethodType, GBool True]
       \<lparr>sent = [], script = []\<rparr> two_sessions = Next reader2 w' st'"
    and s: "sent w' = sent \<lparr>sent = [], script = []\<rparr> @
              [GBool alreadyQuit, GString (errToString ''Access is denied.'' retErr)]"
    by blast
  from d have b: "b = True" "reader2 = []" by simp_all
  from q b Quit_two_sessions_2
  have r: "alreadyQuit = False" "retErr = Some ERROR_ACCESS_DENIED" "st' = two_sessions"
    by simp_all
  have sc: "script w' = []"
    using i by (auto simp: ServeConn_iteration_def Quit_two_sessions_2 Encode_def)
  have "w' = \<lparr>sent = [GBool False, GString ''Access is denied.''], script = []\<rparr>"
    using s sc r by (cases w') (simp add: errToString_def Error_text_def)
  then show ?thesis using h1 h2 i b r by simp
qed

text \<open>
  The claim as written fails: the session's \<^verbatim>\<open>Update\<close> request is decoded, nothing is
  written for it, and the loop goes on (it does not return) to the next request. Of the
  two requests of this stream, only the second gets a response.
\<close>

theorem Update_request_unanswered_counterexample:
  "ServeConn_iteration ''Access is denied.'' 1
     [GMethodType UpdateMethodType, GMethodType UpdateStateMethodType]
     \<lparr>sent = [], script = []\<rparr> two_sessions =
   Next [GMethodType UpdateStateMethodType] \<lparr>sent = [], script = []\<rparr>
     (two_sessions\<lparr>downloads := [42]\<rparr>) \<and>
   map_option (sent \<circ> fst)
     (ServeConn ''Access is denied.'' 1
        [GMethodType UpdateMethodType, GMethodType UpdateStateMethodType]
        \<lparr>sent = [], script = []\<rparr> two_sessions) =
   Some [GUpdateState UpdateStateUnknown]"
proof -
  have i1: "ServeConn_iteration ''Access is denied.'' 1
     [GMethodType UpdateMethodType, GMethodType UpdateStateMethodType]
     \<lparr>sent = [], script = []\<rparr> two_sessions =
   Next [GMethodType UpdateStateMethodType] \<lparr>sent = [], script = []\<rparr>
     (two_sessions\<lparr>downloads := [42]\<rparr>)"
    by (simp add: ServeConn_iteration_def Update_def two_sessions_def)
  have i2: "ServeConn_iteration ''Access is denied.'' 1 [GMethodType UpdateStateMethodType]
     \<lparr>sent = [], script = []\<rparr> (two_sessions\<lparr>downloads := [42]\<rparr>) =
   Next [] \<lparr>sent = [GUpdateState UpdateStateUnknown], script = []\<rparr>
     (two_sessions\<lparr>downloads := [42]\<rparr>)"
    by (simp add: ServeConn_iteration_def UpdateState_method_def Encode_def two_sessions_def)
  have i3: "ServeConn_iteration ''Access is denied.'' 1 []
     \<lparr>sent = [GUpdateState UpdateStateUnknown], script = []\<rparr> (two_sessions\<lparr>downloads := [42]\<rparr>) =
   Exit \<lparr>sent = [GUpdateState UpdateStateUnknown], script = []\<rparr>
     (two_sessions\<lparr>downloads := [42]\<rparr>)"
    by (simp add: ServeConn_iteration_def)
  have "ServeConn ''Access is denied.'' 1
        [GMethodType UpdateMethodType, GMethodType UpdateStateMethodType]
        \<lparr>sent = [], script = []\<rparr> two_sessions =
      Some (\<lparr>sent = [GUpdateState UpdateStateUnknown], script = []\<rparr>,
            two_sessions\<lparr>downloads := [42]\<rparr>)"
    apply (subst ServeConn.simps, simp only: i1 iteration.case)
    apply (subst ServeConn.simps, simp only: i2 iteration.case)
    apply (subst ServeConn.simps, simp only: i3 iteration.case)
    done
  then show ?thesis using i1 by simp
qed

end
